theory Spec2Isabelle
  imports Main "HOL-Library.Sublist"
begin

section \<open>Python text primitives used by the Stevenson mixin\<close>

text \<open>
  A Python \<open>str\<close> is modelled as a \<open>string\<close>; a character stands for the code point
  of the same number, so the model covers the code points below 256.  On that range the
  character tables are the ones of CPython: \<open>str.isspace\<close> (which is also the class
  \<open>\s\<close> of \<open>re\<close> on \<open>str\<close> patterns), the decimal digits of \<open>\d\<close>, the letters of
  \<open>[A-Za-z]\<close>, and \<open>str.lower\<close>.
\<close>

definition isspace :: "char \<Rightarrow> bool" where
  "isspace c =
     (let n = (of_char c :: nat)
      in (9 \<le> n \<and> n \<le> 13) \<or> (28 \<le> n \<and> n \<le> 32) \<or> n = 133 \<or> n = 160)"

definition isdecimal :: "char \<Rightarrow> bool" where
  "isdecimal c = (let n = (of_char c :: nat) in 48 \<le> n \<and> n \<le> 57)"

definition isletter :: "char \<Rightarrow> bool" where
  "isletter c =
     (let n = (of_char c :: nat) in (65 \<le> n \<and> n \<le> 90) \<or> (97 \<le> n \<and> n \<le> 122))"

definition lower_char :: "char \<Rightarrow> char" where
  "lower_char c =
     (let n = (of_char c :: nat)
      in if (65 \<le> n \<and> n \<le> 90) \<or> (192 \<le> n \<and> n \<le> 222 \<and> n \<noteq> 215)
         then char_of (n + 32) else c)"

definition lower :: "string \<Rightarrow> string" where
  "lower s = map lower_char s"

text \<open>\<open>s.strip()\<close>: leading, then trailing whitespace is removed.\<close>

definition strip :: "string \<Rightarrow> string" where
  "strip s = rev (dropWhile isspace (rev (dropWhile isspace s)))"

text \<open>\<open>needle in haystack\<close> on strings is the contiguous-substring test.\<close>

definition contains :: "string \<Rightarrow> string \<Rightarrow> bool" where
  "contains haystack needle = sublist needle haystack"

subsection \<open>The fragment of \<open>re\<close> the date patterns are written in\<close>

text \<open>
  Every date pattern is \<open>^\<close> followed by a sequence of items, each either an
  alternation of literal words \<open>(?:w1|w2|...)\<close> (a single literal is the alternation of
  one word) or a greedy bounded repetition \<open>c{lo,hi}\<close> of a one-character class
  (\<open>c+\<close>, \<open>c*\<close>, \<open>c?\<close>, \<open>c{4}\<close> are instances).
\<close>

datatype cclass = Letter | Digit | Space | Ch char

fun cclass_mem :: "cclass \<Rightarrow> char \<Rightarrow> bool" where
  "cclass_mem Letter c = isletter c"
| "cclass_mem Digit c = isdecimal c"
| "cclass_mem Space c = isspace c"
| "cclass_mem (Ch d) c = (c = d)"

datatype atom = Alt "string list" | Rep cclass nat "nat option"

abbreviation plus :: "cclass \<Rightarrow> atom" where "plus c \<equiv> Rep c 1 None"
abbreviation star :: "cclass \<Rightarrow> atom" where "star c \<equiv> Rep c 0 None"
abbreviation opt :: "cclass \<Rightarrow> atom" where "opt c \<equiv> Rep c 0 (Some 1)"
abbreviation lit :: "string \<Rightarrow> atom" where "lit w \<equiv> Alt [w]"

text \<open>
  The backtracking matcher of \<open>re\<close>, as the list of the remainders of the subject after
  each way of matching, in the order in which backtracking tries them: an alternation
  tries its words from left to right, a greedy repetition takes as many characters as it
  can (at most \<open>hi\<close>) and gives them back one at a time down to \<open>lo\<close>.
\<close>

definition greedy :: "cclass \<Rightarrow> nat option \<Rightarrow> string \<Rightarrow> nat" where
  "greedy c hi s =
     (let n = length (takeWhile (cclass_mem c) s)
      in case hi of None \<Rightarrow> n | Some h \<Rightarrow> min n h)"

fun atom_ends :: "atom \<Rightarrow> string \<Rightarrow> string list" where
  "atom_ends (Alt ws) s = map (\<lambda>w. drop (length w) s) (filter (\<lambda>w. prefix w s) ws)"
| "atom_ends (Rep c lo hi) s = map (\<lambda>k. drop k s) (rev [lo ..< Suc (greedy c hi s)])"

fun ends :: "atom list \<Rightarrow> string \<Rightarrow> string list" where
  "ends [] s = [s]"
| "ends (a # as) s = concat (map (ends as) (atom_ends a s))"

text \<open>\<open>re.match\<close> takes the first way that succeeds; the result here is what follows the match.\<close>

definition re_match :: "atom list \<Rightarrow> string \<Rightarrow> string option" where
  "re_match p s = (case ends p s of [] \<Rightarrow> None | r # _ \<Rightarrow> Some r)"

text \<open>
  \<open>re.sub(pattern, "", title)\<close> for a pattern that starts with \<open>^\<close> (no MULTILINE flag)
  and cannot match the empty string: the only possible match starts at position 0, and
  it is deleted.
\<close>

definition re_sub_empty :: "atom list \<Rightarrow> string \<Rightarrow> string" where
  "re_sub_empty p s = (case re_match p s of None \<Rightarrow> s | Some r \<Rightarrow> r)"

section \<open>The title cleaner\<close>

definition weekdays :: "string list" where
  "weekdays = [''Monday'', ''Tuesday'', ''Wednesday'', ''Thursday'', ''Friday'',
               ''Saturday'', ''Sunday'']"

definition ordinals :: "string list" where
  "ordinals = [''st'', ''nd'', ''rd'', ''th'']"

text \<open>
  The eight patterns of \<open>date_patterns\<close>, in the order of the source:
  \<^enum> \<^verbatim>\<open>^(?:Monday|Tuesday|Wednesday|Thursday|Friday|Saturday|Sunday),?\s+[A-Za-z]+\s+\d{1,2}\s*-\s*\<close>
  \<^enum> \<^verbatim>\<open>^[A-Za-z]+\s+\d{1,2}\s*&\s*\d{1,2}\s+\<close>
  \<^enum> \<^verbatim>\<open>^[A-Za-z]+\s+\d{1,2}\s*-\s*\d{1,2},?\s+\d{4}\s+\<close>
  \<^enum> \<^verbatim>\<open>^[A-Za-z]+\s+\d{1,2}(?:st|nd|rd|th)\s+\<close>
  \<^enum> \<^verbatim>\<open>^[A-Za-z]+\s+\d{1,2}(?:st|nd|rd|th),?\s+\d{4}\s+\<close>
  \<^enum> \<^verbatim>\<open>^[A-Za-z]+\s+\d{1,2},\s+\d{4}\s*-?\s*\<close>
  \<^enum> \<^verbatim>\<open>^[A-Za-z]+\s+\d{1,2}\s*-\s*\<close>
  \<^enum> \<^verbatim>\<open>^[A-Za-z]+\s+\d{4}\s+\<close>
\<close>

definition pattern1 :: "atom list" where
  "pattern1 = [Alt weekdays, opt (Ch CHR '',''), plus Space, plus Letter, plus Space,
     Rep Digit 1 (Some 2), star Space, lit ''-'', star Space]"

definition pattern2 :: "atom list" where
  "pattern2 = [plus Letter, plus Space, Rep Digit 1 (Some 2), star Space, lit ''&'',
     star Space, Rep Digit 1 (Some 2), plus Space]"

definition pattern3 :: "atom list" where
  "pattern3 = [plus Letter, plus Space, Rep Digit 1 (Some 2), star Space, lit ''-'',
     star Space, Rep Digit 1 (Some 2), opt (Ch CHR '',''), plus Space,
     Rep Digit 4 (Some 4), plus Space]"

definition pattern4 :: "atom list" where
  "pattern4 = [plus Letter, plus Space, Rep Digit 1 (Some 2), Alt ordinals, plus Space]"

definition pattern5 :: "atom list" where
  "pattern5 = [plus Letter, plus Space, Rep Digit 1 (Some 2), Alt ordinals,
     opt (Ch CHR '',''), plus Space, Rep Digit 4 (Some 4), plus Space]"

definition pattern6 :: "atom list" where
  "pattern6 = [plus Letter, plus Space, Rep Digit 1 (Some 2), lit '','', plus Space,
     Rep Digit 4 (Some 4), star Space, opt (Ch CHR ''-''), star Space]"

definition pattern7 :: "atom list" where
  "pattern7 = [plus Letter, plus Space, Rep Digit 1 (Some 2), star Space, lit ''-'',
     star Space]"

definition pattern8 :: "atom list" where
  "pattern8 = [plus Letter, plus Space, Rep Digit 4 (Some 4), plus Space]"

definition date_patterns :: "atom list list" where
  "date_patterns =
     [pattern1, pattern2, pattern3, pattern4, pattern5, pattern6, pattern7, pattern8]"

text \<open>
  \<open>_parse_title\<close>, from the text the title selector returned (\<open>None\<close> when nothing
  matched): strip, delete each pattern's match in turn, strip.
\<close>

definition parse_title :: "string option \<Rightarrow> string" where
  "parse_title css_title =
     (let title = (case css_title of None \<Rightarrow> [] | Some t \<Rightarrow> if t = [] then [] else strip t);
          title = foldl (\<lambda>title pattern. re_sub_empty pattern title) title date_patterns
      in strip title)"

section \<open>Data model\<close>

datatype classification = CITY_COUNCIL | COMMISSION | NOT_CLASSIFIED

datatype status = CANCELLED | PASSED | TENTATIVE | UPCOMING

datatype py_exception = ValueError | TypeError | AttributeError

text \<open>
  A \<open>datetime\<close> object: the wall-clock fields and \<open>tzinfo\<close>, which is \<open>None\<close> on a naive
  datetime and the UTC offset (in seconds) on an aware one.
\<close>

record datetime =
  year :: nat
  month :: nat
  day :: nat
  hour :: nat
  minute :: nat
  second :: nat
  microsecond :: nat
  tzinfo :: "int option"

text \<open>\<open>a < b\<close> on two naive datetimes compares the fields in order.\<close>

definition dt_less :: "datetime \<Rightarrow> datetime \<Rightarrow> bool" where
  "dt_less a b =
     (year a < year b \<or> (year a = year b \<and>
     (month a < month b \<or> (month a = month b \<and>
     (day a < day b \<or> (day a = day b \<and>
     (hour a < hour b \<or> (hour a = hour b \<and>
     (minute a < minute b \<or> (minute a = minute b \<and>
     (second a < second b \<or> (second a = second b \<and>
      microsecond a < microsecond b))))))))))))"

record link =
  link_href :: string
  link_title :: string

record location =
  loc_name :: string
  loc_address :: string

text \<open>
  The \<open>Meeting\<close> item.  \<open>status\<close> and \<open>id\<close> are set after construction, so they are
  \<open>None\<close> until then.
\<close>

record meeting =
  title :: string
  description :: string
  classification :: classification
  start :: "datetime option"
  end_dt :: "datetime option"
  all_day :: bool
  time_notes :: string
  location :: location
  links :: "link list"
  source :: string
  status :: "status option"
  meeting_id :: "string option"

text \<open>
  What the selector library returns on the page, as data.  For a cell:
  \<^verbatim>\<open>cell.css("a::attr(href)").get()\<close>.  For a row (\<open>item\<close>):
  \<^verbatim>\<open>item.css("td.views-field-title::text, .views-field-title::text").get()\<close>,
  \<^verbatim>\<open>item.css("span[property='dc:date']::attr(content)").get()\<close> and
  \<^verbatim>\<open>item.css("td")\<close>.  For a response: its \<open>url\<close>,
  \<^verbatim>\<open>response.css("tr.even, tr.odd")\<close> and
  \<^verbatim>\<open>response.css(".pager-next a::attr(href), .pager__item--next a::attr(href)").get()\<close>.
  \<open>get()\<close> is \<open>None\<close> when nothing matches.
\<close>

record cell =
  css_a_href :: "string option"

record row =
  css_title :: "string option"
  css_date :: "string option"
  css_td :: "cell list"

record response =
  url :: string
  css_rows :: "row list"
  css_next :: "string option"

text \<open>
  The spider's configuration and its collaborators: the static variables of the spider
  class, \<open>response.urljoin\<close> (base URL, reference), \<open>datetime.fromisoformat\<close>,
  the clock (\<open>clock k\<close> is what \<open>datetime.now()\<close> returns while row \<open>k\<close> is processed),
  and the base class's \<open>_get_status\<close> and \<open>_get_id\<close>, which return or raise.
  \<open>urljoin\<close> is taken on references it resolves: it raises \<open>ValueError\<close> on a malformed
  one, and that way of ending a run is not part of the model.
\<close>

record spider =
  spider_description :: string
  spider_location :: location
  board_id :: int
  urljoin :: "string \<Rightarrow> string \<Rightarrow> string"
  fromisoformat :: "string \<Rightarrow> py_exception + datetime"
  clock :: "nat \<Rightarrow> datetime"
  super_get_status :: "meeting \<Rightarrow> string \<Rightarrow> py_exception + status"
  get_id :: "meeting \<Rightarrow> py_exception + string"

section \<open>The mixin's methods\<close>

definition parse_classification :: "int \<Rightarrow> classification" where
  "parse_classification bid =
     (if bid = 27 then CITY_COUNCIL
      else if bid = 28 then COMMISSION
      else NOT_CLASSIFIED)"

text \<open>\<^verbatim>\<open>date_str.replace("Z", "+00:00")\<close>: every \<open>Z\<close> is replaced.\<close>

definition replace_Z :: "string \<Rightarrow> string" where
  "replace_Z s = concat (map (\<lambda>c. if c = CHR ''Z'' then ''+00:00'' else [c]) s)"

text \<open>
  \<open>_parse_datetime\<close>.  The \<open>try\<close> block catches \<open>ValueError\<close> only: any other
  exception of \<open>fromisoformat\<close> reaches the caller.
\<close>

definition parse_datetime ::
  "(string \<Rightarrow> py_exception + datetime) \<Rightarrow> string \<Rightarrow> py_exception + datetime option" where
  "parse_datetime fromiso date_str =
     (let date_str = strip date_str
      in if CHR ''T'' \<in> set date_str
         then (case fromiso (replace_Z date_str) of
                 Inr dt \<Rightarrow> Inr (Some (dt\<lparr>tzinfo := None\<rparr>))
               | Inl ValueError \<Rightarrow> Inr None
               | Inl e \<Rightarrow> Inl e)
         else Inr None)"

definition parse_start ::
  "(string \<Rightarrow> py_exception + datetime) \<Rightarrow> row \<Rightarrow> py_exception + datetime option" where
  "parse_start fromiso item =
     (case css_date item of
        None \<Rightarrow> Inr None
      | Some date_elem \<Rightarrow>
          if date_elem = [] then Inr None else parse_datetime fromiso (strip date_elem))"

definition headers :: "string list" where
  "headers = [''Agenda'', ''Agenda Packet'', ''Minutes'', ''Video'']"

text \<open>\<open>_parse_links\<close>: the loop over \<open>zip(headers, cells[2:])\<close>, appending to \<open>links\<close>.\<close>

definition link_step :: "(string \<Rightarrow> string \<Rightarrow> string) \<Rightarrow> string \<Rightarrow> link list \<Rightarrow> string \<times> cell \<Rightarrow> link list" where
  "link_step join base ls hc =
     (case css_a_href (snd hc) of
        None \<Rightarrow> ls
      | Some h \<Rightarrow>
          if h = [] then ls else ls @ [\<lparr>link_href = join base h, link_title = fst hc\<rparr>])"

definition parse_links :: "(string \<Rightarrow> string \<Rightarrow> string) \<Rightarrow> string \<Rightarrow> row \<Rightarrow> link list" where
  "parse_links join base item =
     (let cells = css_td item
      in foldl (link_step join base) [] (zip headers (drop 2 cells)))"

text \<open>
  \<open>_get_status\<close>, with the base class's rule and the reading of the clock as arguments.
  The title is always set on the meetings \<open>parse\<close> builds.  The call of the base class's
  rule is not guarded: what it returns is returned, what it raises is raised.
\<close>

definition get_status ::
  "(meeting \<Rightarrow> string \<Rightarrow> py_exception + status) \<Rightarrow> datetime \<Rightarrow> meeting \<Rightarrow> string
     \<Rightarrow> py_exception + status" where
  "get_status base now m text =
     (let combined_text = lower (title m @ '' '' @ text)
      in if contains combined_text ''cancelled'' then Inr CANCELLED
         else if contains combined_text ''rescheduled''
                 \<and> (case start m of None \<Rightarrow> False | Some st \<Rightarrow> dt_less st now)
         then Inr PASSED
         else base m text)"

definition parse_source :: "response \<Rightarrow> string" where
  "parse_source resp = url resp"

text \<open>
  One turn of the loop of \<open>parse\<close>: the \<open>Meeting\<close> is built, then \<open>status\<close> and \<open>id\<close> are
  set.  Nothing in the loop catches an exception, so what \<open>_parse_start\<close>, \<open>_get_status\<close>
  or \<open>_get_id\<close> raises ends the turn.
\<close>

definition make_meeting :: "spider \<Rightarrow> response \<Rightarrow> nat \<Rightarrow> row \<Rightarrow> py_exception + meeting" where
  "make_meeting sp resp k item =
     (case parse_start (fromisoformat sp) item of
        Inl e \<Rightarrow> Inl e
      | Inr st \<Rightarrow>
          (let m = \<lparr> title = parse_title (css_title item),
                     description = spider_description sp,
                     classification = parse_classification (board_id sp),
                     start = st,
                     end_dt = None,
                     all_day = False,
                     time_notes = [],
                     location = spider_location sp,
                     links = parse_links (urljoin sp) (url resp) item,
                     source = parse_source resp,
                     status = None,
                     meeting_id = None \<rparr>
           in case get_status (super_get_status sp) (clock sp k) m [] of
                Inl e \<Rightarrow> Inl e
              | Inr s \<Rightarrow>
                  (let m = m\<lparr>status := Some s\<rparr>
                   in case get_id sp m of
                        Inl e \<Rightarrow> Inl e
                      | Inr i \<Rightarrow> Inr (m\<lparr>meeting_id := Some i\<rparr>))))"

text \<open>
  What a run of the generator \<open>parse\<close> shows: the warnings logged, the objects yielded in
  order, and the exception that ended it, if one did.
\<close>

datatype emitted = Item meeting | Request string

record run =
  logged :: "string list"
  yielded :: "emitted list"
  raised :: "py_exception option"

fun parse_rows :: "spider \<Rightarrow> response \<Rightarrow> nat \<Rightarrow> row list \<Rightarrow> emitted list \<times> py_exception option" where
  "parse_rows sp resp k [] = ([], None)"
| "parse_rows sp resp k (item # items) =
     (case make_meeting sp resp k item of
        Inl e \<Rightarrow> ([], Some e)
      | Inr m \<Rightarrow> (case parse_rows sp resp (Suc k) items of (ys, e) \<Rightarrow> (Item m # ys, e)))"

definition pagination :: "spider \<Rightarrow> response \<Rightarrow> emitted list" where
  "pagination sp resp =
     (case css_next resp of
        None \<Rightarrow> []
      | Some next_page \<Rightarrow>
          if next_page = [] then [] else [Request (urljoin sp (url resp) next_page)])"

definition parse :: "spider \<Rightarrow> response \<Rightarrow> run" where
  "parse sp resp =
     (let meetings = css_rows resp
      in if meetings = []
         then \<lparr> logged = [''No meetings found at '' @ url resp],
                yielded = pagination sp resp,
                raised = None \<rparr>
         else (case parse_rows sp resp 0 meetings of
                 (ys, Some e) \<Rightarrow> \<lparr> logged = [], yielded = ys, raised = Some e \<rparr>
               | (ys, None) \<Rightarrow> \<lparr> logged = [], yielded = ys @ pagination sp resp, raised = None \<rparr>))"

section \<open>Observations on a run\<close>

fun items_of :: "emitted list \<Rightarrow> meeting list" where
  "items_of [] = []"
| "items_of (Item m # ys) = m # items_of ys"
| "items_of (Request u # ys) = items_of ys"

fun requests_of :: "emitted list \<Rightarrow> string list" where
  "requests_of [] = []"
| "requests_of (Item m # ys) = requests_of ys"
| "requests_of (Request u # ys) = u # requests_of ys"

text \<open>\<open>fromisoformat\<close> raises nothing but \<open>ValueError\<close> (what it does on a \<open>str\<close>).\<close>

definition raises_only_ValueError :: "(string \<Rightarrow> py_exception + datetime) \<Rightarrow> bool" where
  "raises_only_ValueError fromiso = (\<forall>s e. fromiso s = Inl e \<longrightarrow> e = ValueError)"

section \<open>ISO 8601 strings\<close>

text \<open>
  The extended format with seconds, \<open>YYYY-MM-DDTHH:MM:SS\<close>, followed by a numeric offset
  \<open>+HH:MM\<close> or \<open>-HH:MM\<close>, or by \<open>Z\<close>; and the field values a \<open>datetime\<close> can hold.
\<close>

definition digit_char :: "nat \<Rightarrow> char" where
  "digit_char k = ''0123456789'' ! k"

definition d2 :: "nat \<Rightarrow> string" where
  "d2 n = [digit_char (n div 10 mod 10), digit_char (n mod 10)]"

definition d4 :: "nat \<Rightarrow> string" where
  "d4 n = [digit_char (n div 1000 mod 10), digit_char (n div 100 mod 10),
           digit_char (n div 10 mod 10), digit_char (n mod 10)]"

definition iso_local :: "datetime \<Rightarrow> string" where
  "iso_local dt =
     d4 (year dt) @ ''-'' @ d2 (month dt) @ ''-'' @ d2 (day dt) @ ''T'' @
     d2 (hour dt) @ '':'' @ d2 (minute dt) @ '':'' @ d2 (second dt)"

definition iso_offset :: "bool \<Rightarrow> nat \<Rightarrow> nat \<Rightarrow> string" where
  "iso_offset west hh mm = (if west then ''-'' else ''+'') @ d2 hh @ '':'' @ d2 mm"

definition offset_seconds :: "bool \<Rightarrow> nat \<Rightarrow> nat \<Rightarrow> int" where
  "offset_seconds west hh mm = (if west then - 1 else 1) * int (hh * 3600 + mm * 60)"

definition is_leap :: "nat \<Rightarrow> bool" where
  "is_leap y = (y mod 4 = 0 \<and> (y mod 400 = 0 \<or> y mod 100 \<noteq> 0))"

definition days_in_month :: "nat \<Rightarrow> nat \<Rightarrow> nat" where
  "days_in_month y m =
     (if m = 2 then (if is_leap y then 29 else 28)
      else if m = 4 \<or> m = 6 \<or> m = 9 \<or> m = 11 then 30 else 31)"

definition valid_fields :: "datetime \<Rightarrow> bool" where
  "valid_fields dt =
     (1 \<le> year dt \<and> year dt \<le> 9999 \<and> 1 \<le> month dt \<and> month dt \<le> 12 \<and>
      1 \<le> day dt \<and> day dt \<le> days_in_month (year dt) (month dt) \<and>
      hour dt < 24 \<and> minute dt < 60 \<and> second dt < 60 \<and> microsecond dt < 1000000)"

text \<open>A wall-clock reading to the second: valid fields, no microseconds, no \<open>tzinfo\<close>.\<close>

definition wall_clock :: "datetime \<Rightarrow> bool" where
  "wall_clock dt = (valid_fields dt \<and> microsecond dt = 0 \<and> tzinfo dt = None)"

text \<open>
  \<open>fromisoformat\<close> reads the strings of this format as written: the fields, and the
  offset as \<open>tzinfo\<close>.
\<close>

definition reads_iso :: "(string \<Rightarrow> py_exception + datetime) \<Rightarrow> bool" where
  "reads_iso fromiso =
     (\<forall>dt west hh mm. wall_clock dt \<and> hh < 24 \<and> mm < 60 \<longrightarrow>
        fromiso (iso_local dt @ iso_offset west hh mm) =
          Inr (dt\<lparr>tzinfo := Some (offset_seconds west hh mm)\<rparr>))"

section \<open>Instances of the collaborators, for the examples\<close>

text \<open>
  A strict reader of \<open>YYYY-MM-DD*HH:MM:SS\<close> with an optional \<open>+HH:MM\<close> or \<open>-HH:MM\<close>
  (\<open>*\<close> is any one character); everything else is a \<open>ValueError\<close>.
\<close>

definition digit_val :: "char \<Rightarrow> nat" where
  "digit_val c = of_char c - 48"

definition number :: "string \<Rightarrow> nat option" where
  "number s =
     (if s \<noteq> [] \<and> list_all isdecimal s
      then Some (foldl (\<lambda>n c. 10 * n + digit_val c) 0 s) else None)"

definition tz_suffix :: "string \<Rightarrow> int option" where
  "tz_suffix t =
     (if (t ! 0 = CHR ''+'' \<or> t ! 0 = CHR ''-'') \<and> t ! 3 = CHR '':''
      then (case (number (take 2 (drop 1 t)), number (take 2 (drop 4 t))) of
              (Some h, Some m) \<Rightarrow>
                if h < 24 \<and> m < 60 then Some (offset_seconds (t ! 0 = CHR ''-'') h m) else None
            | _ \<Rightarrow> None)
      else None)"

definition strict_fromisoformat :: "string \<Rightarrow> py_exception + datetime" where
  "strict_fromisoformat s =
     (if (length s = 19 \<or> length s = 25) \<and> s ! 4 = CHR ''-'' \<and> s ! 7 = CHR ''-'' \<and>
         s ! 13 = CHR '':'' \<and> s ! 16 = CHR '':''
      then (case (number (take 4 s), number (take 2 (drop 5 s)), number (take 2 (drop 8 s))) of
              (Some y, Some mo, Some d) \<Rightarrow>
                (case (number (take 2 (drop 11 s)), number (take 2 (drop 14 s)),
                       number (take 2 (drop 17 s))) of
                   (Some h, Some mi, Some se) \<Rightarrow>
                     (let dt = \<lparr> year = y, month = mo, day = d, hour = h, minute = mi,
                                  second = se, microsecond = 0, tzinfo = None \<rparr>
                      in if \<not> valid_fields dt then Inl ValueError
                         else if length s = 19 then Inr dt
                         else (case tz_suffix (drop 19 s) of
                                 None \<Rightarrow> Inl ValueError
                               | Some off \<Rightarrow> Inr (dt\<lparr>tzinfo := Some off\<rparr>)))
                 | _ \<Rightarrow> Inl ValueError)
            | _ \<Rightarrow> Inl ValueError)
      else Inl ValueError)"

text \<open>References that start with \<open>/\<close>, resolved against the site of the mixin's \<open>base_url\<close>.\<close>

definition site_urljoin :: "string \<Rightarrow> string \<Rightarrow> string" where
  "site_urljoin base ref = ''https://www.ci.stevenson.wa.us'' @ ref"

text \<open>
  Stand-ins for the base class's \<open>_get_status\<close> and \<open>_get_id\<close>.  Like the base class, the
  rule looks for a keyword in the title, the description and the notes and then compares
  \<open>start\<close> with the clock, and the id formats \<open>start\<close>; neither looks whether \<open>start\<close> is
  set, so on a meeting without \<open>start\<close> the comparison raises \<open>TypeError\<close> and the
  formatting raises \<open>AttributeError\<close>.  The text of the id is not the base class's.
\<close>

definition base_get_status :: "datetime \<Rightarrow> meeting \<Rightarrow> string \<Rightarrow> py_exception + status" where
  "base_get_status now m text =
     (let meeting_text = lower (title m @ '' '' @ description m @ '' '' @ text)
      in if contains meeting_text ''cancel'' \<or> contains meeting_text ''rescheduled'' \<or>
            contains meeting_text ''postpone''
         then Inr CANCELLED
         else (case start m of
                 None \<Rightarrow> Inl TypeError
               | Some st \<Rightarrow> Inr (if dt_less st now then PASSED else TENTATIVE)))"

definition base_get_id :: "string \<Rightarrow> meeting \<Rightarrow> py_exception + string" where
  "base_get_id name m =
     (case start m of
        None \<Rightarrow> Inl AttributeError
      | Some st \<Rightarrow> Inr (name @ ''/'' @ title m))"

definition january_evening :: datetime where
  "january_evening =
     \<lparr> year = 2026, month = 1, day = 15, hour = 18, minute = 0, second = 0, microsecond = 0,
       tzinfo = None \<rparr>"

definition at_midnight :: "nat \<Rightarrow> nat \<Rightarrow> nat \<Rightarrow> datetime" where
  "at_midnight y m d =
     \<lparr> year = y, month = m, day = d, hour = 0, minute = 0, second = 0, microsecond = 0,
       tzinfo = None \<rparr>"

definition city_hall :: location where
  "city_hall = \<lparr> loc_name = ''Stevenson City Hall Council Chambers'',
                 loc_address = ''7121 East Loop Road, Stevenson, WA 98648'' \<rparr>"

definition council_spider :: spider where
  "council_spider =
     \<lparr> spider_description = [],
       spider_location = city_hall,
       board_id = 27,
       urljoin = site_urljoin,
       fromisoformat = strict_fromisoformat,
       clock = (\<lambda>k. at_midnight 2024 12 18),
       super_get_status = base_get_status (at_midnight 2024 12 18),
       get_id = base_get_id ''colgo_stevenson_city'' \<rparr>"

definition workshop_row :: row where
  "workshop_row =
     \<lparr> css_title = Some ''Wednesday, February 5- Budget Workshop'',
       css_date = Some ''2025-02-05T18:00:00-08:00'',
       css_td = [\<lparr>css_a_href = None\<rparr>, \<lparr>css_a_href = None\<rparr>,
                 \<lparr>css_a_href = Some ''/agenda.pdf''\<rparr>, \<lparr>css_a_href = None\<rparr>,
                 \<lparr>css_a_href = Some ''/minutes.pdf''\<rparr>] \<rparr>"

definition undated_row :: row where
  "undated_row =
     \<lparr> css_title = None, css_date = Some ''not-a-date'', css_td = [] \<rparr>"

definition listing_page :: response where
  "listing_page =
     \<lparr> url = ''https://www.ci.stevenson.wa.us/meetings?field_microsite_tid_1=27'',
       css_rows = [workshop_row, undated_row],
       css_next = Some ''/meetings?page=1'' \<rparr>"

definition cancelled_undated_row :: row where
  "cancelled_undated_row =
     \<lparr> css_title = Some ''Meeting Cancelled'', css_date = None, css_td = [] \<rparr>"

definition cancelled_page :: response where
  "cancelled_page =
     \<lparr> url = ''https://www.ci.stevenson.wa.us/meetings?page=2'',
       css_rows = [cancelled_undated_row],
       css_next = None \<rparr>"

definition empty_page :: response where
  "empty_page =
     \<lparr> url = ''https://www.ci.stevenson.wa.us/meetings?page=9'',
       css_rows = [],
       css_next = Some ''/meetings?page=10'' \<rparr>"

definition titled :: "string \<Rightarrow> datetime option \<Rightarrow> meeting" where
  "titled t st =
     \<lparr> title = t, description = [], classification = CITY_COUNCIL, start = st,
       end_dt = None, all_day = False, time_notes = [], location = city_hall,
       links = [], source = [], status = None, meeting_id = None \<rparr>"

section \<open>Classification\<close>

text \<open>
  C9.  The classification is \<open>CITY_COUNCIL\<close> for the board identifier 27, \<open>COMMISSION\<close>
  for 28 and \<open>NOT_CLASSIFIED\<close> for every other identifier; it is always one of these
  three values.
\<close>

theorem parse_classification_cases:
  "parse_classification 27 = CITY_COUNCIL \<and>
   parse_classification 28 = COMMISSION \<and>
   (bid \<noteq> 27 \<and> bid \<noteq> 28 \<longrightarrow> parse_classification bid = NOT_CLASSIFIED) \<and>
   parse_classification bid \<in> {CITY_COUNCIL, COMMISSION, NOT_CLASSIFIED}"
  by (simp add: parse_classification_def)

theorem parse_classification_cases_witness:
  "(99::int) \<noteq> 27 \<and> (99::int) \<noteq> 28 \<and> parse_classification 99 = NOT_CLASSIFIED"
  using parse_classification_cases [of 99] by simp

section \<open>Stripping\<close>

text \<open>
  \<open>strip\<close> returns a contiguous part of its argument that neither starts nor ends with
  whitespace, so stripping twice is stripping once.
\<close>

lemma strip_Nil: "strip [] = []"
  by (simp add: strip_def)

lemma strip_sublist: "sublist (strip s) s"
proof -
  have "sublist (dropWhile isspace (rev (dropWhile isspace s))) (rev (dropWhile isspace s))"
    by (rule sublist_dropWhile)
  then have "sublist (strip s) (dropWhile isspace s)"
    by (simp add: strip_def sublist_rev_left)
  moreover have "sublist (dropWhile isspace s) s"
    by (rule sublist_dropWhile)
  ultimately show ?thesis
    by (rule sublist_order.order.trans)
qed

lemma strip_no_trailing: "dropWhile isspace (rev (strip s)) = rev (strip s)"
  by (simp add: strip_def)

lemma strip_no_leading: "dropWhile isspace (strip s) = strip s"
proof -
  let ?u = "dropWhile isspace s"
  let ?v = "rev (dropWhile isspace (rev ?u))"
  have "rev (rev ?u) = rev (takeWhile isspace (rev ?u) @ dropWhile isspace (rev ?u))"
    by (simp only: takeWhile_dropWhile_id)
  then have split: "?u = ?v @ rev (takeWhile isspace (rev ?u))"
    by (simp only: rev_rev_ident rev_append)
  have "?v = [] \<or> \<not> isspace (hd ?v)"
  proof (cases "?v = []")
    case True
    then show ?thesis by simp
  next
    case False
    then have "hd ?u = hd ?v"
      using split by (metis hd_append2)
    moreover have "?u \<noteq> []" using False split by (metis Nil_is_append_conv)
    then have "\<not> isspace (hd ?u)" by (rule hd_dropWhile)
    ultimately show ?thesis by simp
  qed
  then have "dropWhile isspace ?v = ?v"
    by (simp add: dropWhile_eq_self_iff)
  then show ?thesis by (simp add: strip_def)
qed

lemma strip_strip: "strip (strip s) = strip s"
proof -
  have "strip (strip s) = rev (dropWhile isspace (rev (dropWhile isspace (strip s))))"
    by (simp add: strip_def)
  also have "\<dots> = rev (dropWhile isspace (rev (strip s)))"
    by (simp add: strip_no_leading)
  also have "\<dots> = strip s"
    by (simp add: strip_no_trailing)
  finally show ?thesis .
qed

section \<open>The matcher\<close>

text \<open>
  Whatever way a pattern matches, what remains is a suffix of the subject.  A date
  pattern cannot match the empty string: its first item is a weekday or \<open>[A-Za-z]+\<close>.
\<close>

lemma atom_ends_suffix: "r \<in> set (atom_ends a s) \<Longrightarrow> suffix r s"
  by (cases a) (auto simp: suffix_drop)

lemma ends_suffix: "r \<in> set (ends p s) \<Longrightarrow> suffix r s"
proof (induction p arbitrary: s r)
  case Nil
  then show ?case by simp
next
  case (Cons a p)
  from Cons.prems obtain m where m: "m \<in> set (atom_ends a s)" and r: "r \<in> set (ends p m)"
    by auto
  from r have "suffix r m" by (rule Cons.IH)
  moreover from m have "suffix m s" by (rule atom_ends_suffix)
  ultimately show ?case by (rule suffix_order.trans)
qed

lemma re_sub_empty_suffix: "suffix (re_sub_empty p s) s"
proof (cases "ends p s")
  case Nil
  then show ?thesis by (simp add: re_sub_empty_def re_match_def)
next
  case (Cons r rs)
  then have "r \<in> set (ends p s)" by simp
  then have "suffix r s" by (rule ends_suffix)
  with Cons show ?thesis by (simp add: re_sub_empty_def re_match_def)
qed

lemma foldl_re_sub_suffix: "suffix (foldl (\<lambda>t p. re_sub_empty p t) s ps) s"
proof (induction ps arbitrary: s)
  case Nil
  then show ?case by simp
next
  case (Cons p ps)
  have "suffix (foldl (\<lambda>t p. re_sub_empty p t) (re_sub_empty p s) ps) (re_sub_empty p s)"
    by (rule Cons.IH)
  moreover have "suffix (re_sub_empty p s) s" by (rule re_sub_empty_suffix)
  ultimately show ?case by (simp add: suffix_order.trans)
qed

lemma foldl_no_match:
  "\<forall>p \<in> set ps. re_match p s = None \<Longrightarrow> foldl (\<lambda>t p. re_sub_empty p t) s ps = s"
  by (induction ps) (simp_all add: re_sub_empty_def)

lemma greedy_le: "greedy c hi s \<le> length s"
proof -
  have "length (takeWhile (cclass_mem c) s) \<le> length s"
    by (rule length_takeWhile_le)
  then show ?thesis
    by (cases hi) (simp_all add: greedy_def Let_def)
qed

lemma ends_Rep_shorter:
  assumes "r \<in> set (ends (Rep c (Suc lo) hi # p) s)"
  shows "length r < length s"
proof -
  from assms obtain k where k: "Suc lo \<le> k" "k < Suc (greedy c hi s)"
    and r: "r \<in> set (ends p (drop k s))"
    by auto
  from r have "length r \<le> length (drop k s)"
    by (intro suffix_length_le ends_suffix)
  moreover from k greedy_le [of c hi s] have "0 < k" "k \<le> length s" by simp_all
  ultimately show ?thesis by simp
qed

lemma ends_Alt_shorter:
  assumes "r \<in> set (ends (Alt ws # p) s)" and "[] \<notin> set ws"
  shows "length r < length s"
proof -
  from assms(1) obtain w where w: "w \<in> set ws" "prefix w s"
    and r: "r \<in> set (ends p (drop (length w) s))"
    by auto
  from r have "length r \<le> length (drop (length w) s)"
    by (intro suffix_length_le ends_suffix)
  then have "length r \<le> length s - length w" by simp
  moreover from w assms(2) have "w \<noteq> []" by auto
  then have "0 < length w" by simp
  moreover from w have "length w \<le> length s" by (simp add: prefix_length_le)
  ultimately show ?thesis by arith
qed

lemma date_patterns_shorter:
  assumes "p \<in> set date_patterns" and "r \<in> set (ends p s)"
  shows "length r < length s"
proof -
  from assms(1) consider "p = pattern1" | "\<exists>q. p = plus Letter # q"
    by (auto simp: date_patterns_def pattern2_def pattern3_def pattern4_def pattern5_def
        pattern6_def pattern7_def pattern8_def)
  then show ?thesis
  proof cases
    case 1
    have nonempty: "[] \<notin> set weekdays" by (simp add: weekdays_def)
    from 1 obtain q where "p = Alt weekdays # q" by (simp add: pattern1_def)
    with assms(2) have "r \<in> set (ends (Alt weekdays # q) s)" by simp
    then show ?thesis using nonempty by (rule ends_Alt_shorter)
  next
    case 2
    then obtain q where "p = Rep Letter (Suc 0) None # q" by auto
    with assms(2) show ?thesis by (intro ends_Rep_shorter) simp
  qed
qed

lemma re_sub_empty_shorter:
  assumes "p \<in> set date_patterns" and "re_match p s \<noteq> None"
  shows "length (re_sub_empty p s) < length s"
proof (cases "ends p s")
  case Nil
  with assms(2) show ?thesis by (simp add: re_match_def)
next
  case (Cons r rs)
  then have "r \<in> set (ends p s)" by simp
  with assms(1) have "length r < length s" by (rule date_patterns_shorter)
  with Cons show ?thesis by (simp add: re_sub_empty_def re_match_def)
qed

lemma foldl_re_sub_shorter:
  assumes "set ps \<subseteq> set date_patterns" and "\<exists>p \<in> set ps. re_match p s \<noteq> None"
  shows "length (foldl (\<lambda>t p. re_sub_empty p t) s ps) < length s"
  using assms
proof (induction ps arbitrary: s)
  case Nil
  then show ?case by simp
next
  case (Cons p ps)
  show ?case
  proof (cases "re_match p s")
    case None
    then have same: "re_sub_empty p s = s" by (simp add: re_sub_empty_def)
    from Cons.prems None have "\<exists>q \<in> set ps. re_match q s \<noteq> None" by auto
    moreover from Cons.prems have "set ps \<subseteq> set date_patterns" by simp
    ultimately have "length (foldl (\<lambda>t p. re_sub_empty p t) s ps) < length s"
      by (rule Cons.IH [rotated])
    with same show ?thesis by simp
  next
    case (Some r)
    from Cons.prems have "p \<in> set date_patterns" by simp
    then have "length (re_sub_empty p s) < length s"
      using Some by (intro re_sub_empty_shorter) simp_all
    moreover have "length (foldl (\<lambda>t p. re_sub_empty p t) (re_sub_empty p s) ps)
        \<le> length (re_sub_empty p s)"
      by (intro suffix_length_le foldl_re_sub_suffix)
    ultimately show ?thesis by simp
  qed
qed

section \<open>Properties of the title cleaner\<close>

lemma parse_title_strip: "\<exists>u. parse_title t = strip u"
  by (auto simp: parse_title_def Let_def)

lemma parse_title_Some:
  "parse_title (Some s) = strip (foldl (\<lambda>t p. re_sub_empty p t) (strip s) date_patterns)"
  by (simp add: parse_title_def Let_def strip_Nil)

text \<open>
  C6.  A missing title gives the empty string; the cleaned title never starts or ends
  with whitespace; \<open>Wednesday, February 5- Budget Workshop\<close> gives \<open>Budget Workshop\<close> and
  \<open>October 19-20, 2018 Council Retreat\<close> gives \<open>Council Retreat\<close>.
\<close>

theorem parse_title_trimmed:
  "parse_title None = [] \<and>
   dropWhile isspace (parse_title t) = parse_title t \<and>
   dropWhile isspace (rev (parse_title t)) = rev (parse_title t) \<and>
   parse_title (Some ''Wednesday, February 5- Budget Workshop'') = ''Budget Workshop'' \<and>
   parse_title (Some ''October 19-20, 2018 Council Retreat'') = ''Council Retreat''"
proof -
  have a: "parse_title None = []" by code_simp
  obtain u where u: "parse_title t = strip u" using parse_title_strip by blast
  have b: "dropWhile isspace (parse_title t) = parse_title t"
    by (simp add: u strip_no_leading)
  have c: "dropWhile isspace (rev (parse_title t)) = rev (parse_title t)"
    by (simp add: u strip_no_trailing)
  have d: "parse_title (Some ''Wednesday, February 5- Budget Workshop'') = ''Budget Workshop''"
    by code_simp
  have e: "parse_title (Some ''October 19-20, 2018 Council Retreat'') = ''Council Retreat''"
    by code_simp
  from a b c d e show ?thesis by blast
qed

text \<open>
  C10.  For every title text, the cleaned title is a contiguous part of it: the patterns
  only delete from the front and stripping only deletes at the two ends, so nothing is
  inserted, duplicated or reordered.
\<close>

theorem parse_title_sublist: "sublist (parse_title (Some s)) s"
proof -
  let ?t0 = "if s = [] then [] else strip s"
  let ?t1 = "foldl (\<lambda>t p. re_sub_empty p t) ?t0 date_patterns"
  have eq: "parse_title (Some s) = strip ?t1"
    by (simp add: parse_title_def Let_def)
  have "sublist (strip ?t1) ?t1" by (rule strip_sublist)
  moreover have "sublist ?t1 ?t0"
    using foldl_re_sub_suffix by (rule suffix_imp_sublist)
  moreover have "sublist ?t0 s" by (simp add: strip_sublist)
  ultimately have "sublist (strip ?t1) s"
    by (meson sublist_order.order.trans)
  with eq show ?thesis by simp
qed

text \<open>
  C3, as stated (cleaning a cleaned title changes nothing), fails: each pattern is tried
  once, in order, so a prefix that pattern 7 would delete survives when it only comes to
  the front after pattern 8 has deleted what preceded it.  The second run deletes it.
\<close>

theorem parse_title_not_idempotent:
  "parse_title (Some (parse_title (Some ''January 2026 February 25- Budget Workshop'')))
     \<noteq> parse_title (Some ''January 2026 February 25- Budget Workshop'')"
  by code_simp

text \<open>
  C3, amended.  Cleaning a cleaned title changes nothing exactly when none of the eight
  patterns matches at the start of the cleaned title.
\<close>

theorem parse_title_fixed_iff:
  "parse_title (Some (parse_title t)) = parse_title t \<longleftrightarrow>
   (\<forall>p \<in> set date_patterns. re_match p (parse_title t) = None)"
proof
  obtain u where u: "parse_title t = strip u" using parse_title_strip by blast
  {
    assume none: "\<forall>p \<in> set date_patterns. re_match p (parse_title t) = None"
    have "parse_title (Some (strip u)) =
        strip (foldl (\<lambda>t p. re_sub_empty p t) (strip u) date_patterns)"
      by (simp add: parse_title_Some strip_strip)
    also have "\<dots> = strip (strip u)"
      using none by (simp add: u foldl_no_match)
    finally show "parse_title (Some (parse_title t)) = parse_title t"
      by (simp add: u strip_strip)
  }
  {
    assume fixed: "parse_title (Some (parse_title t)) = parse_title t"
    show "\<forall>p \<in> set date_patterns. re_match p (parse_title t) = None"
    proof (rule ccontr)
      assume "\<not> (\<forall>p \<in> set date_patterns. re_match p (parse_title t) = None)"
      then have ex: "\<exists>p \<in> set date_patterns. re_match p (strip u) \<noteq> None"
        by (simp add: u)
      let ?v = "foldl (\<lambda>t p. re_sub_empty p t) (strip u) date_patterns"
      have "length ?v < length (strip u)"
        using ex by (intro foldl_re_sub_shorter) simp_all
      moreover have "length (strip ?v) \<le> length ?v"
        by (intro sublist_length_le strip_sublist)
      moreover have "parse_title (Some (strip u)) = strip ?v"
        by (simp add: parse_title_Some strip_strip)
      ultimately have "length (parse_title (Some (strip u))) < length (strip u)"
        by simp
      with fixed u show False by simp
    qed
  }
qed

theorem parse_title_fixed_iff_witness:
  "list_all (\<lambda>p. re_match p (parse_title (Some ''Wednesday, February 5- Budget Workshop'')) = None)
     date_patterns \<and>
   parse_title (Some (parse_title (Some ''Wednesday, February 5- Budget Workshop''))) =
     parse_title (Some ''Wednesday, February 5- Budget Workshop'')"
proof -
  have h: "list_all (\<lambda>p. re_match p
      (parse_title (Some ''Wednesday, February 5- Budget Workshop'')) = None) date_patterns"
    by code_simp
  then have "\<forall>p \<in> set date_patterns.
      re_match p (parse_title (Some ''Wednesday, February 5- Budget Workshop'')) = None"
    by (simp add: list_all_iff)
  with parse_title_fixed_iff [of "Some ''Wednesday, February 5- Budget Workshop''"] h
  show ?thesis by blast
qed

section \<open>Properties of the datetime parser\<close>

lemma parse_datetime_total:
  assumes "raises_only_ValueError fromiso"
  shows "\<exists>r. parse_datetime fromiso s = Inr r"
proof (cases "fromiso (replace_Z (strip s))")
  case (Inl e)
  with assms have "e = ValueError" by (simp add: raises_only_ValueError_def)
  with Inl show ?thesis by (simp add: parse_datetime_def Let_def)
next
  case (Inr dt)
  then show ?thesis by (simp add: parse_datetime_def Let_def)
qed

lemma strict_fromisoformat_raises: "raises_only_ValueError strict_fromisoformat"
  unfolding raises_only_ValueError_def
proof (intro allI impI)
  fix s e
  assume "strict_fromisoformat s = Inl e"
  then show "e = ValueError"
    by (cases e)
      (auto simp: strict_fromisoformat_def Let_def split: if_splits option.splits prod.splits)
qed

text \<open>
  C4.  When \<open>fromisoformat\<close> raises nothing but \<open>ValueError\<close>, \<open>_parse_datetime\<close> returns
  on every string and raises nothing.  Every failure gives \<open>None\<close>: a string without \<open>T\<close>,
  and a string \<open>fromisoformat\<close> rejects.  \<open>not-a-date\<close> gives \<open>None\<close>, whatever
  \<open>fromisoformat\<close> does.
\<close>

theorem parse_datetime_failures:
  "(raises_only_ValueError fromiso \<longrightarrow> (\<exists>r. parse_datetime fromiso s = Inr r)) \<and>
   (CHR ''T'' \<notin> set (strip s) \<longrightarrow> parse_datetime fromiso s = Inr None) \<and>
   (fromiso (replace_Z (strip s)) = Inl ValueError \<longrightarrow> parse_datetime fromiso s = Inr None) \<and>
   parse_datetime fromiso ''not-a-date'' = Inr None"
proof -
  have "CHR ''T'' \<notin> set (strip ''not-a-date'')" by code_simp
  then have "parse_datetime fromiso ''not-a-date'' = Inr None"
    by (simp add: parse_datetime_def Let_def)
  then show ?thesis
    using parse_datetime_total [of fromiso s] by (simp add: parse_datetime_def Let_def)
qed

theorem parse_datetime_failures_witness:
  "raises_only_ValueError strict_fromisoformat \<and>
   (\<exists>r. parse_datetime strict_fromisoformat ''2026-13-45T99:00:00'' = Inr r) \<and>
   CHR ''T'' \<notin> set (strip ''2026-01-15 18:00:00'') \<and>
   parse_datetime strict_fromisoformat ''2026-01-15 18:00:00'' = Inr None \<and>
   strict_fromisoformat (replace_Z (strip ''2026-13-45T99:00:00'')) = Inl ValueError \<and>
   parse_datetime strict_fromisoformat ''2026-13-45T99:00:00'' = Inr None \<and>
   parse_datetime strict_fromisoformat ''not-a-date'' = Inr None"
proof -
  have noT: "CHR ''T'' \<notin> set (strip ''2026-01-15 18:00:00'')"
    by code_simp
  have bad: "strict_fromisoformat (replace_Z (strip ''2026-13-45T99:00:00'')) = Inl ValueError"
    by code_simp
  note t1 = parse_datetime_failures [of strict_fromisoformat "''2026-13-45T99:00:00''"]
  note t2 = parse_datetime_failures [of strict_fromisoformat "''2026-01-15 18:00:00''"]
  from t1 strict_fromisoformat_raises
  have a: "\<exists>r. parse_datetime strict_fromisoformat ''2026-13-45T99:00:00'' = Inr r"
    by blast
  from t2 noT have b: "parse_datetime strict_fromisoformat ''2026-01-15 18:00:00'' = Inr None"
    by blast
  from t1 bad have c: "parse_datetime strict_fromisoformat ''2026-13-45T99:00:00'' = Inr None"
    by blast
  from t1 have d: "parse_datetime strict_fromisoformat ''not-a-date'' = Inr None"
    by blast
  from strict_fromisoformat_raises a noT b bad c d show ?thesis by blast
qed

subsection \<open>Digits and the strict reader\<close>

lemma of_char_digit: "j < 10 \<Longrightarrow> (of_char (digit_char j) :: nat) = 48 + j"
proof -
  assume "j < 10"
  then have "j = 0 \<or> j = 1 \<or> j = 2 \<or> j = 3 \<or> j = 4 \<or> j = 5 \<or> j = 6 \<or> j = 7 \<or> j = 8 \<or> j = 9"
    by arith
  then show ?thesis
    unfolding digit_char_def by (elim disjE) simp_all
qed

lemma of_char_digit_char: "(of_char (digit_char (k mod 10)) :: nat) = 48 + k mod 10"
  by (rule of_char_digit) simp

lemma isdecimal_digit_char: "isdecimal (digit_char (k mod 10))"
  by (simp add: isdecimal_def of_char_digit_char)

lemma digit_val_digit_char: "digit_val (digit_char (k mod 10)) = k mod 10"
  by (simp add: digit_val_def of_char_digit_char)

lemma not_isspace_digit_char: "\<not> isspace (digit_char (k mod 10))"
proof -
  have "k mod 10 < 10" by simp
  then have "k mod 10 \<noteq> 85" and "k mod 10 \<noteq> 112" by arith+
  then show ?thesis
    by (simp add: isspace_def of_char_digit_char Let_def)
qed

lemma digit_char_neq_Z: "digit_char (k mod 10) \<noteq> CHR ''Z''"
proof
  assume "digit_char (k mod 10) = CHR ''Z''"
  then have "(of_char (digit_char (k mod 10)) :: nat) = of_char CHR ''Z''"
    by (rule arg_cong)
  then have "48 + k mod 10 = (90::nat)"
    by (simp only: of_char_digit_char) simp
  then show False by arith
qed


lemma number_2: "number [digit_char (a mod 10), digit_char (b mod 10)] = Some (10 * (a mod 10) + b mod 10)"
  by (simp add: number_def isdecimal_digit_char digit_val_digit_char)

lemma number_4:
  "number [digit_char (a mod 10), digit_char (b mod 10), digit_char (c mod 10), digit_char (d mod 10)] =
   Some (10 * (10 * (10 * (a mod 10) + b mod 10) + c mod 10) + d mod 10)"
  by (simp add: number_def isdecimal_digit_char digit_val_digit_char)

lemma two_digits:
  assumes "n < 100"
  shows "10 * (n div 10 mod 10) + n mod 10 = (n::nat)"
proof -
  from assms have "n div 10 < 10" by simp
  then have "n div 10 mod 10 = n div 10" by simp
  then show ?thesis by simp
qed

lemma four_digits:
  assumes "n < 10000"
  shows "10 * (10 * (10 * (n div 1000 mod 10) + n div 100 mod 10) + n div 10 mod 10) + n mod 10
         = (n::nat)"
proof -
  have "n div (10 * 10) = n div 10 div 10" by (rule div_mult2_eq)
  then have q2: "n div 10 div 10 = n div 100" by simp
  have "n div (100 * 10) = n div 100 div 10" by (rule div_mult2_eq)
  then have q3: "n div 100 div 10 = n div 1000" by simp
  from assms have "n div 1000 < 10" by simp
  then have e1: "n div 1000 mod 10 = n div 1000" by simp
  have e2: "10 * (n div 1000) + n div 100 mod 10 = n div 100"
    using mult_div_mod_eq [of 10 "n div 100"] by (simp only: q3)
  have e3: "10 * (n div 100) + n div 10 mod 10 = n div 10"
    using mult_div_mod_eq [of 10 "n div 10"] by (simp only: q2)
  have e4: "10 * (n div 10) + n mod 10 = n"
    by (rule mult_div_mod_eq)
  show ?thesis by (simp only: e1 e2 e3 e4)
qed


lemma number_d4: "n < 10000 \<Longrightarrow> number (d4 n) = Some n"
  by (simp only: d4_def number_4 four_digits)

lemma number_d2: "n < 100 \<Longrightarrow> number (d2 n) = Some n"
  by (simp only: d2_def number_2 two_digits)

lemma length_d4: "length (d4 n) = 4"
  by (simp add: d4_def)

lemma length_d2: "length (d2 n) = 2"
  by (simp add: d2_def)

lemma tz_suffix_iso_offset:
  assumes "hh < 24" and "mm < 60"
  shows "tz_suffix (iso_offset west hh mm) = Some (offset_seconds west hh mm)"
proof -
  define t where "t = iso_offset west hh mm"
  have sign: "t ! 0 = (if west then CHR ''-'' else CHR ''+'')"
    by (simp add: t_def iso_offset_def)
  have colon: "t ! 3 = CHR '':''"
    by (simp add: t_def iso_offset_def d2_def)
  have "take 2 (drop 1 t) = d2 hh"
    by (simp add: t_def iso_offset_def d2_def)
  with assms have h: "number (take 2 (drop 1 t)) = Some hh"
    by (simp add: number_d2)
  have "take 2 (drop 4 t) = d2 mm"
    by (simp add: t_def iso_offset_def d2_def)
  with assms have m: "number (take 2 (drop 4 t)) = Some mm"
    by (simp add: number_d2)
  have "tz_suffix t = Some (offset_seconds west hh mm)"
    using assms by (cases west) (simp_all add: tz_suffix_def sign colon h m del: One_nat_def)
  then show ?thesis by (simp only: t_def)
qed


lemma iso_local_shape:
  "iso_local dt @ t =
     d4 (year dt) @ CHR ''-'' # d2 (month dt) @ CHR ''-'' # d2 (day dt) @ CHR ''T'' #
     d2 (hour dt) @ CHR '':'' # d2 (minute dt) @ CHR '':'' # d2 (second dt) @ t"
  by (simp add: iso_local_def)

lemma strict_fromisoformat_iso:
  assumes wc: "wall_clock dt" and hh: "hh < 24" and mm: "mm < 60"
  shows "strict_fromisoformat (iso_local dt @ iso_offset west hh mm) =
         Inr (dt\<lparr>tzinfo := Some (offset_seconds west hh mm)\<rparr>)"
proof -
  define s where "s = iso_local dt @ iso_offset west hh mm"
  have shape: "s = d4 (year dt) @ CHR ''-'' # d2 (month dt) @ CHR ''-'' # d2 (day dt) @
      CHR ''T'' # d2 (hour dt) @ CHR '':'' # d2 (minute dt) @ CHR '':'' # d2 (second dt) @
      iso_offset west hh mm"
    by (simp only: s_def iso_local_shape)
  from wc have vf: "valid_fields dt" and us: "microsecond dt = 0" and tz: "tzinfo dt = None"
    by (simp_all add: wall_clock_def)
  from vf have ranges: "year dt < 10000" "month dt < 100" "day dt < 100"
      "hour dt < 100" "minute dt < 100" "second dt < 100"
    by (auto simp: valid_fields_def days_in_month_def split: if_splits)
  have len: "length s = 25"
    by (simp add: shape length_d4 length_d2 iso_offset_def)
  have seps: "s ! 4 = CHR ''-''" "s ! 7 = CHR ''-''" "s ! 13 = CHR '':''" "s ! 16 = CHR '':''"
    by (simp_all add: shape d4_def d2_def)
  have "take 4 s = d4 (year dt)"
    by (simp add: shape length_d4)
  with ranges have n1: "number (take 4 s) = Some (year dt)"
    by (simp add: number_d4)
  have "take 2 (drop 5 s) = d2 (month dt)"
    by (simp add: shape d4_def d2_def)
  with ranges have n2: "number (take 2 (drop 5 s)) = Some (month dt)"
    by (simp add: number_d2)
  have "take 2 (drop 8 s) = d2 (day dt)"
    by (simp add: shape d4_def d2_def)
  with ranges have n3: "number (take 2 (drop 8 s)) = Some (day dt)"
    by (simp add: number_d2)
  have "take 2 (drop 11 s) = d2 (hour dt)"
    by (simp add: shape d4_def d2_def)
  with ranges have n4: "number (take 2 (drop 11 s)) = Some (hour dt)"
    by (simp add: number_d2)
  have "take 2 (drop 14 s) = d2 (minute dt)"
    by (simp add: shape d4_def d2_def)
  with ranges have n5: "number (take 2 (drop 14 s)) = Some (minute dt)"
    by (simp add: number_d2)
  have "take 2 (drop 17 s) = d2 (second dt)"
    by (simp add: shape d4_def d2_def iso_offset_def)
  with ranges have n6: "number (take 2 (drop 17 s)) = Some (second dt)"
    by (simp add: number_d2)
  have "drop 19 s = iso_offset west hh mm"
    by (simp add: shape d4_def d2_def)
  with hh mm have off: "tz_suffix (drop 19 s) = Some (offset_seconds west hh mm)"
    by (simp add: tz_suffix_iso_offset)
  have same: "\<lparr>year = year dt, month = month dt, day = day dt, hour = hour dt,
      minute = minute dt, second = second dt, microsecond = 0, tzinfo = None\<rparr> = dt"
    using us tz by (cases dt) simp
  have "strict_fromisoformat s = Inr (dt\<lparr>tzinfo := Some (offset_seconds west hh mm)\<rparr>)"
    using vf by (simp add: strict_fromisoformat_def len seps n1 n2 n3 n4 n5 n6 off same)
  then show ?thesis by (simp only: s_def)
qed

lemma strict_fromisoformat_reads_iso: "reads_iso strict_fromisoformat"
  unfolding reads_iso_def using strict_fromisoformat_iso by blast

subsection \<open>Well-formed strings pass through unchanged\<close>

lemma strip_unchanged:
  assumes "s \<noteq> []" and "\<not> isspace (hd s)" and "\<not> isspace (last s)"
  shows "strip s = s"
proof -
  from assms have "dropWhile isspace s = s"
    by (simp add: dropWhile_eq_self_iff)
  moreover from assms have "dropWhile isspace (rev s) = rev s"
    by (simp add: dropWhile_eq_self_iff hd_rev)
  ultimately show ?thesis by (simp add: strip_def)
qed

lemma replace_Z_unchanged: "CHR ''Z'' \<notin> set s \<Longrightarrow> replace_Z s = s"
  by (induction s) (auto simp: replace_Z_def)

lemma replace_Z_append: "replace_Z (s @ t) = replace_Z s @ replace_Z t"
  by (simp add: replace_Z_def)

lemma replace_Z_Z: "replace_Z ''Z'' = ''+00:00''"
  by (simp add: replace_Z_def)

lemma no_Z_d2: "CHR ''Z'' \<notin> set (d2 n)"
  using digit_char_neq_Z [of "n div 10"] digit_char_neq_Z [of n]
  by (auto simp: d2_def)

lemma no_Z_d4: "CHR ''Z'' \<notin> set (d4 n)"
  using digit_char_neq_Z [of "n div 1000"] digit_char_neq_Z [of "n div 100"]
    digit_char_neq_Z [of "n div 10"] digit_char_neq_Z [of n]
  by (auto simp: d4_def)

lemma no_Z_iso_local: "CHR ''Z'' \<notin> set (iso_local dt)"
  by (simp add: iso_local_def no_Z_d2 no_Z_d4)

lemma no_Z_iso_offset: "CHR ''Z'' \<notin> set (iso_offset west hh mm)"
  by (simp add: iso_offset_def no_Z_d2)

lemma T_in_iso_local: "CHR ''T'' \<in> set (iso_local dt)"
  by (simp add: iso_local_def)

lemma hd_iso_local: "hd (iso_local dt @ t) = digit_char (year dt div 1000 mod 10)"
  by (simp add: iso_local_def d4_def)

lemma iso_local_nonempty: "iso_local dt \<noteq> []"
  by (simp add: iso_local_def d4_def)

lemma last_iso_offset: "last (iso_local dt @ iso_offset west hh mm) = digit_char (mm mod 10)"
  by (simp add: iso_offset_def d2_def)

lemma strip_iso_offset:
  "strip (iso_local dt @ iso_offset west hh mm) = iso_local dt @ iso_offset west hh mm"
  by (rule strip_unchanged)
    (simp_all add: iso_local_nonempty hd_iso_local last_iso_offset not_isspace_digit_char)

lemma strip_iso_Z: "strip (iso_local dt @ ''Z'') = iso_local dt @ ''Z''"
proof (rule strip_unchanged)
  show "iso_local dt @ ''Z'' \<noteq> []" by simp
  show "\<not> isspace (hd (iso_local dt @ ''Z''))"
    by (simp only: hd_iso_local not_isspace_digit_char not_False_eq_True)
  show "\<not> isspace (last (iso_local dt @ ''Z''))"
    by (simp add: isspace_def)
qed

lemma iso_offset_utc: "iso_offset False 0 0 = ''+00:00''"
  by (simp add: iso_offset_def d2_def digit_char_def)

lemma drop_tzinfo:
  "tzinfo dt = None \<Longrightarrow> (dt\<lparr>tzinfo := Some off\<rparr>)\<lparr>tzinfo := None\<rparr> = dt"
  by (cases dt) simp

text \<open>
  C5.  When \<open>fromisoformat\<close> reads the strings \<open>YYYY-MM-DDTHH:MM:SS+HH:MM\<close> and
  \<open>YYYY-MM-DDTHH:MM:SS-HH:MM\<close> as written, \<open>_parse_datetime\<close> gives, on every such string
  and on the same reading followed by \<open>Z\<close>, the naive datetime that has the fields as
  written: the offset is dropped and not applied.  On \<open>2026-01-15T18:00:00-08:00\<close> it
  gives 2026-01-15 18:00:00.
\<close>

theorem parse_datetime_wall_clock:
  assumes "reads_iso fromiso" and "wall_clock dt" and "hh < 24" and "mm < 60"
  shows "parse_datetime fromiso (iso_local dt @ iso_offset west hh mm) = Inr (Some dt) \<and>
         parse_datetime fromiso (iso_local dt @ ''Z'') = Inr (Some dt)"
proof -
  from assms(2) have naive: "tzinfo dt = None" by (simp add: wall_clock_def)
  have reads: "fromiso (iso_local dt @ iso_offset w h m) =
      Inr (dt\<lparr>tzinfo := Some (offset_seconds w h m)\<rparr>)" if "h < 24" and "m < 60" for w h m
    using assms(1,2) that by (simp add: reads_iso_def)
  have "replace_Z (iso_local dt @ iso_offset west hh mm) = iso_local dt @ iso_offset west hh mm"
    by (rule replace_Z_unchanged) (simp add: no_Z_iso_local no_Z_iso_offset)
  then have a: "parse_datetime fromiso (iso_local dt @ iso_offset west hh mm) = Inr (Some dt)"
    using reads [OF assms(3,4), of west]
    by (simp add: parse_datetime_def Let_def strip_iso_offset T_in_iso_local drop_tzinfo naive)
  have "replace_Z (iso_local dt @ ''Z'') = iso_local dt @ iso_offset False 0 0"
    by (simp only: replace_Z_append replace_Z_Z iso_offset_utc
        replace_Z_unchanged [OF no_Z_iso_local])
  then have b: "parse_datetime fromiso (iso_local dt @ ''Z'') = Inr (Some dt)"
    using reads [of 0 0 False]
    by (simp add: parse_datetime_def Let_def strip_iso_Z T_in_iso_local drop_tzinfo naive)
  from a b show ?thesis by blast
qed

theorem parse_datetime_wall_clock_witness:
  "reads_iso strict_fromisoformat \<and> wall_clock january_evening \<and> (8::nat) < 24 \<and> (0::nat) < 60 \<and>
   iso_local january_evening @ iso_offset True 8 0 = ''2026-01-15T18:00:00-08:00'' \<and>
   iso_local january_evening @ ''Z'' = ''2026-01-15T18:00:00Z'' \<and>
   parse_datetime strict_fromisoformat ''2026-01-15T18:00:00-08:00'' = Inr (Some january_evening) \<and>
   parse_datetime strict_fromisoformat ''2026-01-15T18:00:00Z'' = Inr (Some january_evening)"
proof -
  have w: "wall_clock january_evening"
    by (simp add: wall_clock_def valid_fields_def january_evening_def days_in_month_def)
  have s1: "iso_local january_evening @ iso_offset True 8 0 = ''2026-01-15T18:00:00-08:00''"
    by (simp add: january_evening_def iso_local_def iso_offset_def d4_def d2_def digit_char_def)
  have s2: "iso_local january_evening @ ''Z'' = ''2026-01-15T18:00:00Z''"
    by (simp add: january_evening_def iso_local_def d4_def d2_def digit_char_def)
  have h: "(8::nat) < 24" and m: "(0::nat) < 60" by simp_all
  note t = parse_datetime_wall_clock
    [OF strict_fromisoformat_reads_iso w h m, of True]
  from t s1 s2 have
    "parse_datetime strict_fromisoformat ''2026-01-15T18:00:00-08:00'' = Inr (Some january_evening)"
    "parse_datetime strict_fromisoformat ''2026-01-15T18:00:00Z'' = Inr (Some january_evening)"
    by simp_all
  with strict_fromisoformat_reads_iso w h m s1 s2 show ?thesis by blast
qed

section \<open>Properties of the link extractor\<close>

lemma foldl_link_step:
  "foldl (link_step join base) acc xs =
   acc @ concat (map (\<lambda>hc. link_step join base [] hc) xs)"
proof (induction xs arbitrary: acc)
  case Nil
  then show ?case by simp
next
  case (Cons x xs)
  have "link_step join base acc x = acc @ link_step join base [] x"
    by (simp add: link_step_def split: option.splits)
  then show ?case by (simp add: Cons.IH [of "acc @ link_step join base [] x"])
qed

lemma link_step_cases:
  "link_step join base [] (h, c) = [] \<or>
   (\<exists>r. css_a_href c = Some r \<and> r \<noteq> [] \<and>
        link_step join base [] (h, c) = [\<lparr>link_href = join base r, link_title = h\<rparr>])"
  by (simp add: link_step_def split: option.splits)

lemma concat_steps_length:
  "length (concat (map (link_step join base []) xs)) \<le> length xs"
proof (induction xs)
  case Nil
  then show ?case by simp
next
  case (Cons x xs)
  obtain h c where x: "x = (h, c)" by (cases x)
  have "length (link_step join base [] (h, c)) \<le> 1"
    using link_step_cases [of join base h c] by auto
  with Cons x show ?case by simp
qed

lemma concat_steps_titles:
  "subseq (map link_title (concat (map (link_step join base []) xs))) (map fst xs)"
proof (induction xs)
  case Nil
  then show ?case by simp
next
  case (Cons x xs)
  obtain h c where x: "x = (h, c)" by (cases x)
  from link_step_cases [of join base h c] show ?case
  proof
    assume "link_step join base [] (h, c) = []"
    with Cons x show ?thesis by (auto intro: list_emb_Cons)
  next
    assume "\<exists>r. css_a_href c = Some r \<and> r \<noteq> [] \<and>
        link_step join base [] (h, c) = [\<lparr>link_href = join base r, link_title = h\<rparr>]"
    with Cons x show ?thesis by auto
  qed
qed

lemma concat_steps_member:
  assumes "l \<in> set (concat (map (link_step join base []) xs))"
  shows "\<exists>i r. i < length xs \<and> css_a_href (snd (xs ! i)) = Some r \<and> r \<noteq> [] \<and>
           l = \<lparr>link_href = join base r, link_title = fst (xs ! i)\<rparr>"
proof -
  from assms obtain x where x: "x \<in> set xs" and l: "l \<in> set (link_step join base [] x)"
    by auto
  from x obtain i where i: "i < length xs" and xi: "xs ! i = x"
    by (auto simp: in_set_conv_nth)
  obtain h c where hc: "x = (h, c)" by (cases x)
  from link_step_cases [of join base h c] l hc
  obtain r where "css_a_href c = Some r" and "r \<noteq> []"
    and "l = \<lparr>link_href = join base r, link_title = h\<rparr>"
    by auto
  with i xi hc show ?thesis by auto
qed

lemma distinct_headers: "distinct headers"
  by (simp add: headers_def)

lemma length_headers: "length headers = 4"
  by (simp add: headers_def)

text \<open>
  C7.  The links of a row come from the cells after the first two, paired in order with
  \<open>Agenda\<close>, \<open>Agenda Packet\<close>, \<open>Minutes\<close>, \<open>Video\<close>: there are at most four and at most as
  many as there are such cells; their labels appear in the order of the label sequence;
  every link carries the label of its column and the \<open>href\<close> of its cell's anchor resolved
  by \<open>urljoin\<close>, which is a string and not empty in the cell; a cell without an anchor
  gives no link for its column; a cell with a non-empty \<open>href\<close> gives its link.
\<close>

theorem parse_links_positional:
  "length (parse_links join base item) \<le> min 4 (length (css_td item) - 2) \<and>
   subseq (map link_title (parse_links join base item)) headers \<and>
   (\<forall>l \<in> set (parse_links join base item).
      \<exists>i r. i < 4 \<and> i + 2 < length (css_td item) \<and>
            css_a_href (css_td item ! (i + 2)) = Some r \<and> r \<noteq> [] \<and>
            l = \<lparr>link_href = join base r, link_title = headers ! i\<rparr>) \<and>
   (\<forall>i. i < 4 \<and> i + 2 < length (css_td item) \<and> css_a_href (css_td item ! (i + 2)) = None \<longrightarrow>
      headers ! i \<notin> link_title ` set (parse_links join base item)) \<and>
   (\<forall>i r. i < 4 \<and> i + 2 < length (css_td item) \<and>
      css_a_href (css_td item ! (i + 2)) = Some r \<and> r \<noteq> [] \<longrightarrow>
      \<lparr>link_href = join base r, link_title = headers ! i\<rparr> \<in> set (parse_links join base item))"
proof -
  let ?cells = "css_td item"
  let ?xs = "zip headers (drop 2 ?cells)"
  let ?ls = "parse_links join base item"
  have ls: "?ls = concat (map (link_step join base []) ?xs)"
    by (simp add: parse_links_def foldl_link_step)
  have len: "length ?xs = min 4 (length ?cells - 2)"
    by (simp add: length_headers)
  have nth: "?xs ! i = (headers ! i, ?cells ! (i + 2))" if "i < length ?xs" for i
  proof -
    from that have "2 \<le> length ?cells" by (simp add: length_headers) arith
    then have "drop 2 ?cells ! i = ?cells ! (2 + i)" by (rule nth_drop)
    with that show ?thesis by (simp add: add.commute)
  qed
  have a: "length ?ls \<le> min 4 (length ?cells - 2)"
    using concat_steps_length [of join base ?xs] by (simp only: ls len)
  have "prefix (map fst ?xs) headers"
    by (simp add: map_fst_zip_take take_is_prefix)
  then have "subseq (map fst ?xs) headers"
    by (rule prefix_imp_subseq)
  with concat_steps_titles [of join base ?xs] have b: "subseq (map link_title ?ls) headers"
    unfolding ls by (rule subseq_order.trans)
  have mem: "\<exists>i r. i < 4 \<and> i + 2 < length ?cells \<and>
            css_a_href (?cells ! (i + 2)) = Some r \<and> r \<noteq> [] \<and>
            l = \<lparr>link_href = join base r, link_title = headers ! i\<rparr>"
    if "l \<in> set ?ls" for l
  proof -
    from that ls have "l \<in> set (concat (map (link_step join base []) ?xs))" by simp
    from concat_steps_member [OF this]
    obtain i r where i: "i < length ?xs" and r: "css_a_href (snd (?xs ! i)) = Some r" "r \<noteq> []"
      and l: "l = \<lparr>link_href = join base r, link_title = fst (?xs ! i)\<rparr>"
      by blast
    from i len have "i < 4" "i + 2 < length ?cells" by auto
    moreover from nth [OF i] r l
    have "css_a_href (?cells ! (i + 2)) = Some r" "l = \<lparr>link_href = join base r, link_title = headers ! i\<rparr>"
      by auto
    ultimately show ?thesis using r by blast
  qed
  have c: "\<forall>l \<in> set ?ls. \<exists>i r. i < 4 \<and> i + 2 < length ?cells \<and>
            css_a_href (?cells ! (i + 2)) = Some r \<and> r \<noteq> [] \<and>
            l = \<lparr>link_href = join base r, link_title = headers ! i\<rparr>"
    using mem by blast
  have d: "\<forall>i. i < 4 \<and> i + 2 < length ?cells \<and> css_a_href (?cells ! (i + 2)) = None \<longrightarrow>
      headers ! i \<notin> link_title ` set ?ls"
  proof (intro allI impI notI)
    fix i
    assume i: "i < 4 \<and> i + 2 < length ?cells \<and> css_a_href (?cells ! (i + 2)) = None"
    assume "headers ! i \<in> link_title ` set ?ls"
    then obtain l where l: "l \<in> set ?ls" and t: "link_title l = headers ! i" by auto
    from mem [OF l] obtain j r where j: "j < 4" and r: "css_a_href (?cells ! (j + 2)) = Some r"
      and lj: "l = \<lparr>link_href = join base r, link_title = headers ! j\<rparr>"
      by blast
    from lj t have "headers ! j = headers ! i" by simp
    with i j have "j = i"
      using distinct_headers by (simp add: nth_eq_iff_index_eq length_headers)
    with i r show False by simp
  qed
  have e: "\<forall>i r. i < 4 \<and> i + 2 < length ?cells \<and>
      css_a_href (?cells ! (i + 2)) = Some r \<and> r \<noteq> [] \<longrightarrow>
      \<lparr>link_href = join base r, link_title = headers ! i\<rparr> \<in> set ?ls"
  proof (intro allI impI)
    fix i r
    assume h: "i < 4 \<and> i + 2 < length ?cells \<and>
      css_a_href (?cells ! (i + 2)) = Some r \<and> r \<noteq> []"
    then have i: "i < length ?xs" using len by auto
    then have "?xs ! i \<in> set ?xs" by (rule nth_mem)
    with nth [OF i] have "(headers ! i, ?cells ! (i + 2)) \<in> set ?xs" by simp
    moreover from h have "link_step join base [] (headers ! i, ?cells ! (i + 2)) =
       [\<lparr>link_href = join base r, link_title = headers ! i\<rparr>]"
      by (simp add: link_step_def)
    ultimately show "\<lparr>link_href = join base r, link_title = headers ! i\<rparr> \<in> set ?ls"
      unfolding ls by force
  qed
  from a b c d e show ?thesis by blast
qed

theorem parse_links_positional_witness:
  "(1::nat) < 4 \<and> 1 + 2 < length (css_td workshop_row) \<and>
   css_a_href (css_td workshop_row ! (1 + 2)) = None \<and>
   headers ! 1 \<notin> link_title ` set (parse_links site_urljoin (url listing_page) workshop_row) \<and>
   css_a_href (css_td workshop_row ! (0 + 2)) = Some ''/agenda.pdf'' \<and>
   \<lparr>link_href = site_urljoin (url listing_page) ''/agenda.pdf'', link_title = headers ! 0\<rparr>
     \<in> set (parse_links site_urljoin (url listing_page) workshop_row) \<and>
   length (parse_links site_urljoin (url listing_page) workshop_row) \<le> 3"
proof -
  have len: "length (css_td workshop_row) = 5"
    by (simp add: workshop_row_def)
  have none: "css_a_href (css_td workshop_row ! (1 + 2)) = None"
    by (simp add: workshop_row_def)
  have some: "css_a_href (css_td workshop_row ! (0 + 2)) = Some ''/agenda.pdf''"
    by (simp add: workshop_row_def)
  note t = parse_links_positional [of site_urljoin "url listing_page" workshop_row]
  from t len none have a: "headers ! 1 \<notin>
      link_title ` set (parse_links site_urljoin (url listing_page) workshop_row)"
    by simp
  from t len some have b:
    "\<lparr>link_href = site_urljoin (url listing_page) ''/agenda.pdf'', link_title = headers ! 0\<rparr>
       \<in> set (parse_links site_urljoin (url listing_page) workshop_row)"
    by simp
  from t len have c: "length (parse_links site_urljoin (url listing_page) workshop_row) \<le> 3"
    by simp
  from len none some a b c show ?thesis by simp
qed

section \<open>Properties of the status resolver\<close>

text \<open>
  C2.  The rules are tried in order.  When the lower-cased title and notes contain
  \<open>cancelled\<close> the status is \<open>CANCELLED\<close>, whatever the start and whether or not
  \<open>rescheduled\<close> occurs too.  Otherwise, when they contain \<open>rescheduled\<close> and the start is set
  and strictly before now, the status is \<open>PASSED\<close>.  Otherwise the outcome is that of the
  base class's rule.
\<close>

theorem get_status_rule_order:
  "(contains (lower (title m @ '' '' @ extra)) ''cancelled'' \<longrightarrow>
      get_status base now m extra = Inr CANCELLED) \<and>
   (\<not> contains (lower (title m @ '' '' @ extra)) ''cancelled'' \<and>
    contains (lower (title m @ '' '' @ extra)) ''rescheduled'' \<and>
    start m = Some st \<and> dt_less st now \<longrightarrow>
      get_status base now m extra = Inr PASSED) \<and>
   (\<not> contains (lower (title m @ '' '' @ extra)) ''cancelled'' \<and>
    (\<not> contains (lower (title m @ '' '' @ extra)) ''rescheduled'' \<or> start m = None \<or>
     (\<exists>st'. start m = Some st' \<and> \<not> dt_less st' now)) \<longrightarrow>
      get_status base now m extra = base m extra)"
  by (auto simp: get_status_def Let_def)

theorem get_status_rule_order_witness:
  "get_status (base_get_status (at_midnight 2024 12 18)) (at_midnight 2024 12 18)
     (titled ''Rescheduled Meeting Cancelled'' (Some (at_midnight 2030 1 1))) [] = Inr CANCELLED \<and>
   get_status (base_get_status (at_midnight 2024 12 18)) (at_midnight 2024 12 18)
     (titled ''Rescheduled Meeting'' (Some (at_midnight 2024 12 17))) [] = Inr PASSED \<and>
   get_status (base_get_status (at_midnight 2024 12 18)) (at_midnight 2024 12 18)
     (titled ''Rescheduled Meeting'' (Some (at_midnight 2024 12 19))) [] =
   base_get_status (at_midnight 2024 12 18)
     (titled ''Rescheduled Meeting'' (Some (at_midnight 2024 12 19))) []"
proof -
  let ?now = "at_midnight 2024 12 18"
  let ?m1 = "titled ''Rescheduled Meeting Cancelled'' (Some (at_midnight 2030 1 1))"
  let ?m2 = "titled ''Rescheduled Meeting'' (Some (at_midnight 2024 12 17))"
  let ?m3 = "titled ''Rescheduled Meeting'' (Some (at_midnight 2024 12 19))"
  have c1: "contains (lower (title ?m1 @ '' '' @ [])) ''cancelled''"
    by code_simp
  have c2: "\<not> contains (lower (title ?m2 @ '' '' @ [])) ''cancelled''"
    by code_simp
  have r2: "contains (lower (title ?m2 @ '' '' @ [])) ''rescheduled''"
    by code_simp
  have s2: "start ?m2 = Some (at_midnight 2024 12 17)"
    by (simp add: titled_def)
  have l2: "dt_less (at_midnight 2024 12 17) ?now"
    by (simp add: dt_less_def at_midnight_def)
  have c3: "\<not> contains (lower (title ?m3 @ '' '' @ [])) ''cancelled''"
    by code_simp
  have s3: "start ?m3 = Some (at_midnight 2024 12 19)"
    by (simp add: titled_def)
  have l3: "\<not> dt_less (at_midnight 2024 12 19) ?now"
    by (simp add: dt_less_def at_midnight_def)
  have "get_status (base_get_status ?now) ?now ?m1 [] = Inr CANCELLED"
    using get_status_rule_order [where m = ?m1 and extra = "[]" and base = "base_get_status ?now" and now = ?now] c1 by blast
  moreover have "get_status (base_get_status ?now) ?now ?m2 [] = Inr PASSED"
    using get_status_rule_order [where m = ?m2 and extra = "[]" and base = "base_get_status ?now"
        and now = ?now and st = "at_midnight 2024 12 17"] c2 r2 s2 l2 by blast
  moreover have "get_status (base_get_status ?now) ?now ?m3 [] = base_get_status ?now ?m3 []"
    using get_status_rule_order [where m = ?m3 and extra = "[]" and base = "base_get_status ?now"
        and now = ?now] c3 s3 l3 by blast
  ultimately show ?thesis by blast
qed

section \<open>Properties of the page parser\<close>

lemma parse_start_total:
  assumes "raises_only_ValueError fromiso"
  shows "\<exists>r. parse_start fromiso item = Inr r"
  using parse_datetime_total [OF assms]
  by (simp add: parse_start_def split: option.splits)

lemma get_status_returns:
  assumes "\<exists>s. base m extra = Inr s"
  shows "\<exists>s. get_status base now m extra = Inr s"
  using assms by (auto simp: get_status_def Let_def)

lemma base_get_status_dated:
  "start m = Some st \<Longrightarrow> \<exists>s. base_get_status now m extra = Inr s"
  by (simp add: base_get_status_def Let_def)

lemma base_get_id_dated: "start m = Some st \<Longrightarrow> \<exists>i. base_get_id n m = Inr i"
  by (simp add: base_get_id_def)

lemma make_meeting_dated:
  assumes "parse_start (fromisoformat sp) item = Inr (Some st)"
    and "super_get_status sp = base_get_status now"
    and "get_id sp = base_get_id n"
  shows "\<exists>m. make_meeting sp resp k item = Inr m"
proof -
  let ?m = "\<lparr> title = parse_title (css_title item),
               description = spider_description sp,
               classification = parse_classification (board_id sp),
               start = Some st, end_dt = None, all_day = False, time_notes = [],
               location = spider_location sp,
               links = parse_links (urljoin sp) (url resp) item,
               source = parse_source resp, status = None, meeting_id = None \<rparr>"
  have "\<exists>s. base_get_status now ?m [] = Inr s"
    by (rule base_get_status_dated) simp
  then have "\<exists>s. get_status (base_get_status now) (clock sp k) ?m [] = Inr s"
    by (rule get_status_returns)
  then obtain s where s: "get_status (super_get_status sp) (clock sp k) ?m [] = Inr s"
    using assms(2) by auto
  have "\<exists>i. base_get_id n (?m\<lparr>status := Some s\<rparr>) = Inr i"
    by (rule base_get_id_dated) simp
  then obtain i where i: "get_id sp (?m\<lparr>status := Some s\<rparr>) = Inr i"
    using assms(3) by auto
  show ?thesis using assms(1) s i by (simp add: make_meeting_def Let_def)
qed

lemma make_meeting_total:
  assumes "raises_only_ValueError (fromisoformat sp)"
    and "\<forall>m t. \<exists>s. super_get_status sp m t = Inr s"
    and "\<forall>m. \<exists>i. get_id sp m = Inr i"
  shows "\<exists>m. make_meeting sp resp k item = Inr m"
proof -
  from parse_start_total [OF assms(1)] obtain st
    where st: "parse_start (fromisoformat sp) item = Inr st" by blast
  let ?m = "\<lparr> title = parse_title (css_title item),
               description = spider_description sp,
               classification = parse_classification (board_id sp),
               start = st, end_dt = None, all_day = False, time_notes = [],
               location = spider_location sp,
               links = parse_links (urljoin sp) (url resp) item,
               source = parse_source resp, status = None, meeting_id = None \<rparr>"
  from assms(2) have "\<exists>s. super_get_status sp ?m [] = Inr s" by blast
  then have "\<exists>s. get_status (super_get_status sp) (clock sp k) ?m [] = Inr s"
    by (rule get_status_returns)
  then obtain s
    where s: "get_status (super_get_status sp) (clock sp k) ?m [] = Inr s" by blast
  from assms(3) obtain i where i: "get_id sp (?m\<lparr>status := Some s\<rparr>) = Inr i" by blast
  show ?thesis using st s i by (simp add: make_meeting_def Let_def)
qed

lemma make_meeting_title:
  "make_meeting sp resp k item = Inr m \<Longrightarrow> title m = parse_title (css_title item)"
  by (auto simp: make_meeting_def Let_def split: sum.splits)

lemma parse_rows_total:
  assumes "raises_only_ValueError (fromisoformat sp)"
    and "\<forall>m t. \<exists>s. super_get_status sp m t = Inr s"
    and "\<forall>m. \<exists>i. get_id sp m = Inr i"
  shows "\<exists>ms. parse_rows sp resp k items = (map Item ms, None) \<and>
              length ms = length items \<and>
              (\<forall>i < length items. make_meeting sp resp (k + i) (items ! i) = Inr (ms ! i))"
proof (induction items arbitrary: k)
  case Nil
  then show ?case by simp
next
  case (Cons item items)
  from make_meeting_total [OF assms] obtain m
    where m: "make_meeting sp resp k item = Inr m" by blast
  from Cons.IH [of "Suc k"] obtain ms
    where ms: "parse_rows sp resp (Suc k) items = (map Item ms, None)"
      and len: "length ms = length items"
      and nth: "\<forall>i < length items. make_meeting sp resp (Suc k + i) (items ! i) = Inr (ms ! i)"
    by blast
  have "parse_rows sp resp k (item # items) = (map Item (m # ms), None)"
    by (simp add: m ms)
  moreover have "length (m # ms) = length (item # items)"
    by (simp add: len)
  moreover have "\<forall>i < length (item # items).
      make_meeting sp resp (k + i) ((item # items) ! i) = Inr ((m # ms) ! i)"
  proof (intro allI impI)
    fix i
    assume i: "i < length (item # items)"
    show "make_meeting sp resp (k + i) ((item # items) ! i) = Inr ((m # ms) ! i)"
    proof (cases i)
      case 0
      with m show ?thesis by simp
    next
      case (Suc j)
      with i nth show ?thesis by simp
    qed
  qed
  ultimately show ?case by blast
qed

lemma items_of_map_Item: "items_of (map Item ms @ ys) = ms @ items_of ys"
  by (induction ms) simp_all

lemma requests_of_map_Item: "requests_of (map Item ms @ ys) = requests_of ys"
  by (induction ms) simp_all

lemma items_of_pagination: "items_of (pagination sp resp) = []"
  by (simp add: pagination_def split: option.splits)

lemma requests_of_pagination:
  "requests_of (pagination sp resp) =
     (case css_next resp of
        None \<Rightarrow> []
      | Some np \<Rightarrow> if np = [] then [] else [urljoin sp (url resp) np])"
  by (simp add: pagination_def split: option.splits)

lemma parse_rows_items:
  "\<exists>ms. fst (parse_rows sp resp k items) = map Item ms"
proof (induction items arbitrary: k)
  case Nil
  then show ?case by simp
next
  case (Cons item items)
  show ?case
  proof (cases "make_meeting sp resp k item")
    case (Inl e)
    then show ?thesis by simp
  next
    case (Inr m)
    from Cons.IH [of "Suc k"] obtain ms
      where "fst (parse_rows sp resp (Suc k) items) = map Item ms" by blast
    then have "fst (parse_rows sp resp k (item # items)) = map Item (m # ms)"
      by (cases "parse_rows sp resp (Suc k) items") (simp add: Inr)
    then show ?thesis by blast
  qed
qed

lemma parse_requests:
  "requests_of (yielded (parse sp resp)) =
     (if raised (parse sp resp) = None then requests_of (pagination sp resp) else [])"
proof (cases "css_rows resp = []")
  case True
  then show ?thesis by (simp add: parse_def)
next
  case False
  obtain ys e where pr: "parse_rows sp resp 0 (css_rows resp) = (ys, e)"
    by (cases "parse_rows sp resp 0 (css_rows resp)")
  from parse_rows_items [of sp resp 0 "css_rows resp"] pr obtain ms
    where ys: "ys = map Item ms" by auto
  have r0: "requests_of (map Item ms) = []"
    using requests_of_map_Item [of ms "[]"] by simp
  show ?thesis
  proof (cases e)
    case None
    with False pr ys show ?thesis
      by (simp add: parse_def Let_def requests_of_map_Item)
  next
    case (Some x)
    with False pr ys r0 show ?thesis
      by (simp add: parse_def Let_def)
  qed
qed

text \<open>
  On a page where every collaborator returns on every row (and \<open>fromisoformat\<close> raises
  nothing but \<open>ValueError\<close>), a run of \<open>parse\<close> ends without an exception; it yields as many
  meetings as the page has matching rows, all of them before the follow-up request; and
  the meeting at position \<open>k\<close> is the one built from row \<open>k\<close>.
\<close>

lemma parse_when_collaborators_return:
  assumes "raises_only_ValueError (fromisoformat sp)"
    and "\<forall>m t. \<exists>s. super_get_status sp m t = Inr s"
    and "\<forall>m. \<exists>i. get_id sp m = Inr i"
  shows "raised (parse sp resp) = None \<and>
         length (items_of (yielded (parse sp resp))) = length (css_rows resp) \<and>
         yielded (parse sp resp) =
           map Item (items_of (yielded (parse sp resp))) @ pagination sp resp \<and>
         (\<forall>k < length (css_rows resp).
            make_meeting sp resp k (css_rows resp ! k) =
              Inr (items_of (yielded (parse sp resp)) ! k) \<and>
            title (items_of (yielded (parse sp resp)) ! k) =
              parse_title (css_title (css_rows resp ! k)))"
proof -
  from parse_rows_total [OF assms, of resp 0 "css_rows resp"] obtain ms
    where pr: "parse_rows sp resp 0 (css_rows resp) = (map Item ms, None)"
      and len: "length ms = length (css_rows resp)"
      and nth: "\<forall>i < length (css_rows resp).
                  make_meeting sp resp i (css_rows resp ! i) = Inr (ms ! i)"
    by auto
  have y: "yielded (parse sp resp) = map Item ms @ pagination sp resp"
    and r: "raised (parse sp resp) = None"
    using pr len by (auto simp: parse_def Let_def)
  have items: "items_of (yielded (parse sp resp)) = ms"
    by (simp add: y items_of_map_Item items_of_pagination)
  have ttl: "title (ms ! k) = parse_title (css_title (css_rows resp ! k))"
    if "k < length (css_rows resp)" for k
  proof -
    from nth that have "make_meeting sp resp k (css_rows resp ! k) = Inr (ms ! k)" by simp
    then show ?thesis by (rule make_meeting_title)
  qed
  show ?thesis unfolding items using r len y nth ttl by simp
qed

text \<open>
  C1.  The claim (one meeting per matching row, in order, and no row ends the run) fails
  on a row without a date.  \<open>_parse_start\<close> gives such a row the start \<open>None\<close>, and
  \<open>_get_status\<close> guards its own comparison against it, but the loop then calls the base
  class's \<open>_get_status\<close> and \<open>_get_id\<close>, which need a start.  On the listing page, whose
  second row has no date, the run yields one meeting for two rows, ends with \<open>TypeError\<close>
  and yields no request although the page has a next link.  On a page whose only row is
  titled \<open>Meeting Cancelled\<close> and has no date, the status is set without the base class and
  the run ends with the \<open>AttributeError\<close> of \<open>_get_id\<close>.
\<close>

theorem parse_aborts_on_row_without_date:
  "length (css_rows listing_page) = 2 \<and>
   length (items_of (yielded (parse council_spider listing_page))) = 1 \<and>
   raised (parse council_spider listing_page) = Some TypeError \<and>
   css_next listing_page = Some ''/meetings?page=1'' \<and>
   requests_of (yielded (parse council_spider listing_page)) = [] \<and>
   items_of (yielded (parse council_spider cancelled_page)) = [] \<and>
   raised (parse council_spider cancelled_page) = Some AttributeError"
proof -
  have rows: "css_rows listing_page = [workshop_row, undated_row]"
    by (simp add: listing_page_def)
  have nxt: "css_next listing_page = Some ''/meetings?page=1''"
    by (simp add: listing_page_def)
  have "parse_start strict_fromisoformat workshop_row =
      Inr (Some \<lparr> year = 2025, month = 2, day = 5, hour = 18, minute = 0, second = 0,
        microsecond = 0, tzinfo = None \<rparr>)"
    by (simp add: parse_start_def workshop_row_def parse_datetime_def strip_def isspace_def
        replace_Z_def strict_fromisoformat_def number_def isdecimal_def digit_val_def
        valid_fields_def days_in_month_def is_leap_def tz_suffix_def offset_seconds_def Let_def)
  then have "parse_start (fromisoformat council_spider) workshop_row =
      Inr (Some \<lparr> year = 2025, month = 2, day = 5, hour = 18, minute = 0, second = 0,
        microsecond = 0, tzinfo = None \<rparr>)"
    by (simp add: council_spider_def)
  then have "\<exists>m. make_meeting council_spider listing_page 0 workshop_row = Inr m"
    by (rule make_meeting_dated) (simp_all add: council_spider_def)
  then obtain m where m0: "make_meeting council_spider listing_page 0 workshop_row = Inr m"
    by blast
  have m1: "make_meeting council_spider listing_page (Suc 0) undated_row = Inl TypeError"
    by code_simp
  have run1: "parse council_spider listing_page =
      \<lparr> logged = [], yielded = [Item m], raised = Some TypeError \<rparr>"
    by (simp add: parse_def Let_def rows m0 m1)
  have rows2: "css_rows cancelled_page = [cancelled_undated_row]"
    by (simp add: cancelled_page_def)
  have m2: "make_meeting council_spider cancelled_page 0 cancelled_undated_row =
      Inl AttributeError"
    by code_simp
  have run2: "parse council_spider cancelled_page =
      \<lparr> logged = [], yielded = [], raised = Some AttributeError \<rparr>"
    by (simp add: parse_def Let_def rows2 m2)
  show ?thesis by (simp add: rows nxt run1 run2)
qed

text \<open>
  C8.  On a page without matching rows \<open>parse\<close> logs one warning, yields no meeting,
  raises nothing and yields what the pagination step yields.  On every page it yields at
  most one request; a request it yields is for the next-page link, which is there and not
  empty, resolved by \<open>urljoin\<close> against the page; and a run that ends normally on a page
  with such a link yields that request.
\<close>

theorem parse_empty_page_and_pagination:
  "(css_rows resp = [] \<longrightarrow>
      logged (parse sp resp) = [''No meetings found at '' @ url resp] \<and>
      items_of (yielded (parse sp resp)) = [] \<and>
      raised (parse sp resp) = None \<and>
      yielded (parse sp resp) = pagination sp resp) \<and>
   length (requests_of (yielded (parse sp resp))) \<le> 1 \<and>
   (\<forall>u \<in> set (requests_of (yielded (parse sp resp))).
      \<exists>np. css_next resp = Some np \<and> np \<noteq> [] \<and> u = urljoin sp (url resp) np) \<and>
   (raised (parse sp resp) = None \<and> css_next resp = Some np \<and> np \<noteq> [] \<longrightarrow>
      requests_of (yielded (parse sp resp)) = [urljoin sp (url resp) np])"
proof -
  have a: "css_rows resp = [] \<longrightarrow>
      logged (parse sp resp) = [''No meetings found at '' @ url resp] \<and>
      items_of (yielded (parse sp resp)) = [] \<and>
      raised (parse sp resp) = None \<and>
      yielded (parse sp resp) = pagination sp resp"
    by (simp add: parse_def items_of_pagination)
  have b: "length (requests_of (yielded (parse sp resp))) \<le> 1"
    by (simp add: parse_requests requests_of_pagination split: option.splits)
  have c: "\<forall>u \<in> set (requests_of (yielded (parse sp resp))).
      \<exists>np. css_next resp = Some np \<and> np \<noteq> [] \<and> u = urljoin sp (url resp) np"
    by (cases "css_next resp") (auto simp: parse_requests requests_of_pagination split: if_splits)
  have d: "raised (parse sp resp) = None \<and> css_next resp = Some np \<and> np \<noteq> [] \<longrightarrow>
      requests_of (yielded (parse sp resp)) = [urljoin sp (url resp) np]"
    by (simp add: parse_requests requests_of_pagination)
  from a b c d show ?thesis by blast
qed

theorem parse_empty_page_and_pagination_witness:
  "css_rows empty_page = [] \<and>
   logged (parse council_spider empty_page) =
     [''No meetings found at https://www.ci.stevenson.wa.us/meetings?page=9''] \<and>
   items_of (yielded (parse council_spider empty_page)) = [] \<and>
   css_next empty_page = Some ''/meetings?page=10'' \<and>
   requests_of (yielded (parse council_spider empty_page)) =
     [''https://www.ci.stevenson.wa.us/meetings?page=10'']"
proof -
  have rows: "css_rows empty_page = []"
    by (simp add: empty_page_def)
  have nxt: "css_next empty_page = Some ''/meetings?page=10''"
    by (simp add: empty_page_def)
  have ne: "''/meetings?page=10'' \<noteq> []" by simp
  have u: "url empty_page = ''https://www.ci.stevenson.wa.us/meetings?page=9''"
    by (simp add: empty_page_def)
  have j: "urljoin council_spider (url empty_page) ''/meetings?page=10'' =
      ''https://www.ci.stevenson.wa.us/meetings?page=10''"
    by (simp add: council_spider_def site_urljoin_def)
  note t = parse_empty_page_and_pagination
    [of empty_page council_spider "''/meetings?page=10''"]
  from t rows have a: "logged (parse council_spider empty_page) =
      [''No meetings found at '' @ url empty_page]"
    and b: "items_of (yielded (parse council_spider empty_page)) = []"
    and r: "raised (parse council_spider empty_page) = None"
    by blast+
  from t r nxt ne have "requests_of (yielded (parse council_spider empty_page)) =
      [urljoin council_spider (url empty_page) ''/meetings?page=10'']"
    by blast
  with rows nxt a b u j show ?thesis by simp
qed

end
